theory Spec2Isabelle
  imports Complex_Main
begin

section \<open>The angle type of base/angle.h\<close>

text \<open>
  The class \<open>base::Angle\<close> holds one \<open>double\<close> field \<open>rad\<close>. The code is embedded twice.

  The first embedding reads \<open>double\<close> as \<^typ>\<open>real\<close>: arithmetic is exact and the macro
  \<open>M_PI\<close> of \<open>math.h\<close> is the number \<^term>\<open>pi\<close>. It carries the statements on which
  rounding has no say: the stored values at \<open>\<pi>\<close>, \<open>-\<pi>\<close> and \<open>3\<pi>\<close>, where the computation on
  doubles performs no rounding either, and the identities of \<open>operator*\<close> and \<open>isApprox\<close>
  that hold for the rounded operations as they do for the exact ones.

  The second embedding, with names ending in \<open>_b64\<close>, rounds the result of every
  addition, subtraction, multiplication and division to binary64 (round to nearest, ties
  to even), and \<open>M_PI\<close> is the double \<open>0x1.921fb54442d18p+1\<close>. It carries the statements
  on which rounding decides.

  In both, a \<open>double\<close> is the real number it denotes: NaN, the infinities, overflow and the
  sign of zero are left out. The default constructor \<open>Angle()\<close> leaves the field
  uninitialised and constructs no value to speak of; it and the stream output
  \<open>operator<<\<close> are left out.
\<close>

subsection \<open>What the code takes from math.h\<close>

definition M_PI :: real where
  \<comment> \<open>The macro \<open>M_PI\<close>.\<close>
  "M_PI = pi"

definition copysign :: "real \<Rightarrow> real \<Rightarrow> real" where
  \<comment> \<open>C's \<open>copysign(x, y)\<close>: the magnitude of \<open>x\<close> with the sign of \<open>y\<close>. The reals have
      no negative zero, so \<open>y = 0\<close> counts as positive; \<open>canonize\<close> never calls it there.\<close>
  "copysign x y = (if y < 0 then - \<bar>x\<bar> else \<bar>x\<bar>)"

definition modf :: "real \<Rightarrow> real \<times> real" where
  \<comment> \<open>C's \<open>modf(x, &intp)\<close>: \<open>intp\<close> is \<open>x\<close> truncated towards zero, the value returned is
      \<open>x - intp\<close> and has the sign of \<open>x\<close>. The pair is (returned value, \<open>intp\<close>).\<close>
  "modf x =
     (let intp = (if 0 \<le> x then of_int \<lfloor>x\<rfloor> else of_int \<lceil>x\<rceil>)
      in (x - intp, intp))"

definition fabs :: "real \<Rightarrow> real" where
  \<comment> \<open>C's \<open>fabs\<close>.\<close>
  "fabs x = \<bar>x\<bar>"

subsection \<open>The class\<close>

record Angle =
  rad :: real

definition canonize :: "Angle \<Rightarrow> Angle" where
  \<comment> \<open>\<open>void canonize()\<close>: updates the field \<open>rad\<close> of the object in place; here the
      updated object is returned.\<close>
  "canonize a =
     (if rad a > M_PI \<or> rad a \<le> - M_PI then
        let side = copysign M_PI (rad a);
            (fr, intp) = modf ((rad a - side) / (2 * M_PI))
        in a\<lparr>rad := - side + 2 * M_PI * fr\<rparr>
      else a)"

definition Angle_ctor :: "real \<Rightarrow> Angle" where
  \<comment> \<open>The protected constructor \<open>explicit Angle(double rad)\<close>: stores \<open>rad\<close>, then
      canonizes.\<close>
  "Angle_ctor r = canonize \<lparr>rad = r\<rparr>"

definition rad2Deg :: "real \<Rightarrow> real" where
  "rad2Deg r = r / M_PI * 180"

definition deg2Rad :: "real \<Rightarrow> real" where
  "deg2Rad d = d / 180 * M_PI"

definition fromRad :: "real \<Rightarrow> Angle" where
  "fromRad r = Angle_ctor r"

definition fromDeg :: "real \<Rightarrow> Angle" where
  "fromDeg d = Angle_ctor (d / 180 * M_PI)"

definition getRad :: "Angle \<Rightarrow> real" where
  "getRad a = rad a"

definition getDeg :: "Angle \<Rightarrow> real" where
  "getDeg a = rad a / M_PI * 180"

definition isApprox :: "Angle \<Rightarrow> Angle \<Rightarrow> real \<Rightarrow> bool" where
  \<comment> \<open>\<open>a.isApprox(other, prec)\<close>; the first argument is the receiver.\<close>
  "isApprox a other prec = (fabs (rad other - rad a) < prec)"

definition isApprox_default_prec :: real where
  \<comment> \<open>The default argument \<open>prec = 1e-5\<close>.\<close>
  "isApprox_default_prec = 1 / 100000"

definition isApprox_default :: "Angle \<Rightarrow> Angle \<Rightarrow> bool" where
  \<comment> \<open>The call \<open>a.isApprox(other)\<close>, which takes the default argument.\<close>
  "isApprox_default a other = isApprox a other isApprox_default_prec"

subsection \<open>The free operators\<close>

definition operator_plus :: "Angle \<Rightarrow> Angle \<Rightarrow> Angle" where
  "operator_plus a b = fromRad (getRad a + getRad b)"

definition operator_minus :: "Angle \<Rightarrow> Angle \<Rightarrow> Angle" where
  "operator_minus a b = fromRad (getRad a - getRad b)"

definition operator_times_Angle_double :: "Angle \<Rightarrow> real \<Rightarrow> Angle" where
  \<comment> \<open>\<open>operator*(Angle a, double b)\<close>\<close>
  "operator_times_Angle_double a b = fromRad (getRad a * b)"

definition operator_times_double_Angle :: "real \<Rightarrow> Angle \<Rightarrow> Angle" where
  \<comment> \<open>\<open>operator*(double a, Angle b)\<close>\<close>
  "operator_times_double_Angle a b = fromRad (a * getRad b)"

section \<open>The same code in binary64 arithmetic\<close>

subsection \<open>Rounding to binary64\<close>

definition rne :: "real \<Rightarrow> int" where
  \<comment> \<open>The integer nearest to \<open>y\<close>; of two equally near integers the even one.\<close>
  "rne y =
     (let f = \<lfloor>y\<rfloor>; d = y - of_int f
      in if d < 1 / 2 then f else if 1 / 2 < d then f + 1 else if even f then f else f + 1)"

definition expo :: "real \<Rightarrow> int" where
  \<comment> \<open>The binary exponent of \<open>x \<noteq> 0\<close>: \<open>2 ^ expo x \<le> |x| < 2 ^ (expo x + 1)\<close>.\<close>
  "expo x = \<lfloor>log 2 \<bar>x\<bar>\<rfloor>"

definition ulp :: "real \<Rightarrow> real" where
  \<comment> \<open>The spacing of the doubles around \<open>x\<close>: 53 significant bits, and \<open>2 ^ - 1074\<close>
      below the smallest normal exponent \<open>- 1022\<close>.\<close>
  "ulp x = 2 powi (max (expo x) (- 1022) - 52)"

definition rnd :: "real \<Rightarrow> real" where
  \<comment> \<open>The double nearest to \<open>x\<close>, ties to even. A result beyond the largest double is
      an infinity in the source and is not modelled.\<close>
  "rnd x = (if x = 0 then 0 else of_int (rne (x / ulp x)) * ulp x)"

definition eta :: real where
  \<comment> \<open>Half the smallest positive double, the rounding error below the normal range.\<close>
  "eta = 2 powi (- 1075)"

definition double_add :: "real \<Rightarrow> real \<Rightarrow> real" where
  \<comment> \<open>\<open>x + y\<close> on doubles\<close>
  "double_add x y = rnd (x + y)"

definition double_sub :: "real \<Rightarrow> real \<Rightarrow> real" where
  \<comment> \<open>\<open>x - y\<close> on doubles\<close>
  "double_sub x y = rnd (x - y)"

definition double_mul :: "real \<Rightarrow> real \<Rightarrow> real" where
  \<comment> \<open>\<open>x * y\<close> on doubles\<close>
  "double_mul x y = rnd (x * y)"

definition double_div :: "real \<Rightarrow> real \<Rightarrow> real" where
  \<comment> \<open>\<open>x / y\<close> on doubles\<close>
  "double_div x y = rnd (x / y)"

definition M_PI_b64 :: real where
  \<comment> \<open>The macro \<open>M_PI\<close> as a double, \<open>0x1.921fb54442d18p+1\<close>, which is
      \<open>884279719003555 / 2 ^ 48\<close>.\<close>
  "M_PI_b64 = 884279719003555 / 281474976710656"

subsection \<open>The class and \<open>operator+\<close>\<close>

text \<open>
  \<open>copysign\<close>, \<open>modf\<close>, \<open>fabs\<close>, unary minus and the comparisons are exact on doubles and
  are the functions of the first embedding; so is \<open>getRad\<close>, which only reads the field.
\<close>

definition canonize_b64 :: "Angle \<Rightarrow> Angle" where
  \<comment> \<open>\<open>void canonize()\<close>; the source's expression is
      \<open>-side + ((2*M_PI) * modf((rad - side) / (2*M_PI), &intp))\<close>.\<close>
  "canonize_b64 a =
     (if rad a > M_PI_b64 \<or> rad a \<le> - M_PI_b64 then
        let side = copysign M_PI_b64 (rad a);
            (fr, intp) = modf (double_div (double_sub (rad a) side) (double_mul 2 M_PI_b64))
        in a\<lparr>rad := double_add (- side) (double_mul (double_mul 2 M_PI_b64) fr)\<rparr>
      else a)"

definition Angle_ctor_b64 :: "real \<Rightarrow> Angle" where
  \<comment> \<open>The protected constructor \<open>explicit Angle(double rad)\<close>.\<close>
  "Angle_ctor_b64 r = canonize_b64 \<lparr>rad = r\<rparr>"

definition fromRad_b64 :: "real \<Rightarrow> Angle" where
  "fromRad_b64 r = Angle_ctor_b64 r"

definition fromDeg_b64 :: "real \<Rightarrow> Angle" where
  \<comment> \<open>\<open>Angle(deg / 180.0 * M_PI)\<close>: the division first, then the product.\<close>
  "fromDeg_b64 d = Angle_ctor_b64 (double_mul (double_div d 180) M_PI_b64)"

definition getDeg_b64 :: "Angle \<Rightarrow> real" where
  \<comment> \<open>\<open>rad / M_PI * 180\<close>\<close>
  "getDeg_b64 a = double_mul (double_div (rad a) M_PI_b64) 180"

definition isApprox_b64 :: "Angle \<Rightarrow> Angle \<Rightarrow> real \<Rightarrow> bool" where
  \<comment> \<open>\<open>a.isApprox(other, prec)\<close>; the first argument is the receiver.\<close>
  "isApprox_b64 a other prec = (fabs (double_sub (rad other) (rad a)) < prec)"

definition isApprox_default_prec_b64 :: real where
  \<comment> \<open>The default argument \<open>prec = 1e-5\<close>: the double nearest to \<open>1 / 100000\<close>.\<close>
  "isApprox_default_prec_b64 = rnd (1 / 100000)"

definition isApprox_default_b64 :: "Angle \<Rightarrow> Angle \<Rightarrow> bool" where
  \<comment> \<open>The call \<open>a.isApprox(other)\<close>, which takes the default argument.\<close>
  "isApprox_default_b64 a other = isApprox_b64 a other isApprox_default_prec_b64"


section \<open>The stored value after construction\<close>

lemma copysign_of_nonneg: "\<not> y < 0 \<Longrightarrow> copysign x y = \<bar>x\<bar>"
  by (simp add: copysign_def)

lemma copysign_of_neg: "y < 0 \<Longrightarrow> copysign x y = - \<bar>x\<bar>"
  by (simp add: copysign_def)

lemma modf_of_nonneg: "0 \<le> x \<Longrightarrow> modf x = (x - of_int \<lfloor>x\<rfloor>, of_int \<lfloor>x\<rfloor>)"
  by (simp add: modf_def Let_def)

lemma modf_of_nonpos: "x \<le> 0 \<Longrightarrow> modf x = (x - of_int \<lceil>x\<rceil>, of_int \<lceil>x\<rceil>)"
proof (cases "x = 0")
  case True
  then show ?thesis by (simp add: modf_def Let_def)
next
  case False
  assume "x \<le> 0"
  with False have "\<not> 0 \<le> x" by simp
  then show ?thesis by (simp add: modf_def Let_def)
qed

lemma getRad_fromRad_above:
  assumes "pi < r"
  shows "getRad (fromRad r) =
    - pi + 2 * pi * ((r - pi) / (2 * pi) - of_int \<lfloor>(r - pi) / (2 * pi)\<rfloor>)"
proof -
  from assms pi_gt_zero have sgn: "\<not> r < 0" by linarith
  from assms have q: "0 \<le> (r - pi) / (2 * pi)" by simp
  have "rad (canonize \<lparr>rad = r\<rparr>) =
    - pi + 2 * pi * ((r - pi) / (2 * pi) - of_int \<lfloor>(r - pi) / (2 * pi)\<rfloor>)"
    using assms by (simp add: canonize_def M_PI_def copysign_of_nonneg [OF sgn] modf_of_nonneg [OF q])
  then show ?thesis by (simp add: getRad_def fromRad_def Angle_ctor_def)
qed

lemma getRad_fromRad_below:
  assumes "r \<le> - pi"
  shows "getRad (fromRad r) =
    pi + 2 * pi * ((r + pi) / (2 * pi) - of_int \<lceil>(r + pi) / (2 * pi)\<rceil>)"
proof -
  from assms pi_gt_zero have sgn: "r < 0" by linarith
  from assms have q: "(r + pi) / (2 * pi) \<le> 0" by (simp add: divide_le_0_iff)
  have "rad (canonize \<lparr>rad = r\<rparr>) =
    pi + 2 * pi * ((r + pi) / (2 * pi) - of_int \<lceil>(r + pi) / (2 * pi)\<rceil>)"
    using assms by (simp add: canonize_def M_PI_def copysign_of_neg [OF sgn] modf_of_nonpos [OF q])
  then show ?thesis by (simp add: getRad_def fromRad_def Angle_ctor_def)
qed

lemma getRad_fromRad_canonical:
  assumes "- pi < r" and "r \<le> pi"
  shows "getRad (fromRad r) = r"
  using assms by (simp add: getRad_def fromRad_def Angle_ctor_def canonize_def M_PI_def)

lemma scale_fraction_floor:
  "0 \<le> 2 * pi * (q - of_int \<lfloor>q\<rfloor>) \<and> 2 * pi * (q - of_int \<lfloor>q\<rfloor>) < 2 * pi"
proof -
  have f: "0 \<le> q - of_int \<lfloor>q\<rfloor>" "q - of_int \<lfloor>q\<rfloor> < 1" by linarith+
  have p: "0 < 2 * pi" by simp
  from f(1) p have "0 \<le> 2 * pi * (q - of_int \<lfloor>q\<rfloor>)"
    by (intro mult_nonneg_nonneg) simp_all
  moreover from mult_strict_left_mono [OF f(2) p]
  have "2 * pi * (q - of_int \<lfloor>q\<rfloor>) < 2 * pi" by (simp only: mult_1_right)
  ultimately show ?thesis ..
qed

lemma scale_fraction_ceiling:
  "- (2 * pi) < 2 * pi * (q - of_int \<lceil>q\<rceil>) \<and> 2 * pi * (q - of_int \<lceil>q\<rceil>) \<le> 0"
proof -
  have f: "q - of_int \<lceil>q\<rceil> \<le> 0" "- 1 < q - of_int \<lceil>q\<rceil>" by linarith+
  have p: "0 < 2 * pi" by simp
  from mult_strict_left_mono [OF f(2) p]
  have "- (2 * pi) < 2 * pi * (q - of_int \<lceil>q\<rceil>)" by (simp only: mult_minus1_right)
  moreover from f(1) p have "2 * pi * (q - of_int \<lceil>q\<rceil>) \<le> 0"
    by (intro mult_nonneg_nonpos) simp_all
  ultimately show ?thesis ..
qed

text \<open>
  Whatever the input, the stored value lies in the closed interval from \<open>-\<pi>\<close> to \<open>\<pi>\<close>.
\<close>

lemma getRad_fromRad_range: "- pi \<le> getRad (fromRad r) \<and> getRad (fromRad r) \<le> pi"
proof -
  consider (hi) "pi < r" | (lo) "r \<le> - pi" | (mid) "- pi < r" "r \<le> pi"
    by linarith
  then show ?thesis
  proof cases
    case hi
    from scale_fraction_floor [of "(r - pi) / (2 * pi)"] show ?thesis
      unfolding getRad_fromRad_above [OF hi] by linarith
  next
    case lo
    from scale_fraction_ceiling [of "(r + pi) / (2 * pi)"] show ?thesis
      unfolding getRad_fromRad_below [OF lo] by linarith
  next
    case mid
    then show ?thesis by (simp add: getRad_fromRad_canonical)
  qed
qed

text \<open>
  The lower end is excluded for every input up to \<open>\<pi>\<close>: the branch for negative
  inputs lands in the half-open interval.
\<close>

lemma getRad_fromRad_gt_minus_pi:
  assumes "r \<le> pi"
  shows "- pi < getRad (fromRad r)"
proof (cases "r \<le> - pi")
  case True
  from scale_fraction_ceiling [of "(r + pi) / (2 * pi)"] show ?thesis
    unfolding getRad_fromRad_below [OF True] by linarith
next
  case False
  with assms show ?thesis by (simp add: getRad_fromRad_canonical)
qed

text \<open>
  The branch for inputs above \<open>\<pi>\<close> lands in the interval closed at \<open>-\<pi>\<close> and open at
  \<open>\<pi>\<close>: the value \<open>-\<pi>\<close> is stored exactly for the inputs \<open>\<pi> + 2\<pi>k\<close> with \<open>k \<ge> 1\<close>.
\<close>

lemma getRad_fromRad_eq_minus_pi_iff:
  "getRad (fromRad r) = - pi \<longleftrightarrow> pi < r \<and> (r - pi) / (2 * pi) \<in> \<int>"
proof (cases "pi < r")
  case True
  define q where "q = (r - pi) / (2 * pi)"
  have "getRad (fromRad r) = - pi \<longleftrightarrow> 2 * pi * (q - of_int \<lfloor>q\<rfloor>) = 0"
    unfolding getRad_fromRad_above [OF True] q_def by linarith
  also have "\<dots> \<longleftrightarrow> q = of_int \<lfloor>q\<rfloor>" by simp
  also have "\<dots> \<longleftrightarrow> q \<in> \<int>" by (metis Ints_of_int floor_of_int Ints_cases)
  finally show ?thesis using True by (simp add: q_def)
next
  case False
  then have "- pi < getRad (fromRad r)" by (simp add: getRad_fromRad_gt_minus_pi)
  with False show ?thesis by simp
qed

lemma getRad_fromRad_three_pi: "getRad (fromRad (3 * pi)) = - pi"
proof -
  have gt: "pi < 3 * pi" using pi_gt_zero by linarith
  have "(3 * pi - pi) / (2 * pi) = 1" by simp
  then show ?thesis unfolding getRad_fromRad_above [OF gt] by simp
qed

lemma getRad_fromRad_minus_pi: "getRad (fromRad (- pi)) = pi"
  by (simp add: getRad_fromRad_below)

text \<open>
  Constructing again from a stored value changes nothing, unless the stored value is \<open>-\<pi>\<close>.
\<close>

lemma fromRad_getRad_fromRad:
  assumes "getRad (fromRad r) \<noteq> - pi"
  shows "getRad (fromRad (getRad (fromRad r))) = getRad (fromRad r)"
proof -
  from getRad_fromRad_range [of r] assms
  have "- pi < getRad (fromRad r)" "getRad (fromRad r) \<le> pi" by linarith+
  then show ?thesis by (rule getRad_fromRad_canonical)
qed

section \<open>Rounding\<close>

text \<open>
  \<open>rne\<close> returns the integer within less than a half of its argument.
\<close>

lemma rne_nearest:
  assumes "\<bar>y - of_int n\<bar> < 1 / 2"
  shows "rne y = n"
proof (cases "of_int n \<le> y")
  case True
  with assms have "\<lfloor>y\<rfloor> = n" by (intro floor_unique) linarith+
  with assms True show ?thesis by (simp add: rne_def Let_def)
next
  case False
  from False assms have "of_int (n - 1) \<le> y" "y < of_int (n - 1) + 1"
    unfolding of_int_diff of_int_1 by linarith+
  then have f: "\<lfloor>y\<rfloor> = n - 1" by (rule floor_unique)
  from False assms have "1 / 2 < y - of_int (n - 1)"
    unfolding of_int_diff of_int_1 by linarith
  with f show ?thesis by (simp add: rne_def Let_def)
qed

lemma two_powr_of_int: "(2::real) powr of_int k = 2 powi k"
  by (simp add: powr_real_of_int')

lemma two_powr_of_int_plus_1: "(2::real) powr (of_int k + 1) = 2 powi (k + 1)"
  using two_powr_of_int [of "k + 1"] by simp

lemma expo_iff:
  assumes "x \<noteq> 0"
  shows "expo x = e \<longleftrightarrow> 2 powi e \<le> \<bar>x\<bar> \<and> \<bar>x\<bar> < 2 powi (e + 1)"
proof -
  from assms have pos: "0 < \<bar>x\<bar>" by simp
  have two: "(1::real) < 2" by simp
  show ?thesis
    unfolding expo_def floor_log_eq_powr_iff [of "\<bar>x\<bar>" 2 e, OF pos two]
    by (simp only: two_powr_of_int two_powr_of_int_plus_1)
qed

lemma expo_bounds:
  assumes "x \<noteq> 0"
  shows "2 powi expo x \<le> \<bar>x\<bar>" and "\<bar>x\<bar> < 2 powi (expo x + 1)"
  using expo_iff [OF assms, of "expo x"] by simp_all

lemma expo_unique:
  assumes "2 powi e \<le> \<bar>x\<bar>" and "\<bar>x\<bar> < 2 powi (e + 1)"
  shows "expo x = e"
proof -
  have "(0::real) < 2 powi e" by simp
  with assms(1) have "0 < \<bar>x\<bar>" by linarith
  then have "x \<noteq> 0" by simp
  from expo_iff [OF this, of e] assms show ?thesis by simp
qed

text \<open>
  A number within less than half a unit in the last place of a double of its own binade
  rounds to that double. This evaluates \<open>rnd\<close> at a given rational: the exponent \<open>e\<close>
  and the significand \<open>n\<close> are supplied, four inequalities between rationals remain.
\<close>

lemma rnd_nearest:
  assumes "2 powi e \<le> \<bar>x\<bar>" and "\<bar>x\<bar> < 2 powi (e + 1)" and "- 1022 \<le> e"
    and "\<bar>x - of_int n * 2 powi (e - 52)\<bar> < 2 powi (e - 53)"
  shows "rnd x = of_int n * 2 powi (e - 52)"
proof -
  have "(0::real) < 2 powi e" by simp
  with assms(1) have "0 < \<bar>x\<bar>" by linarith
  then have nz: "x \<noteq> 0" by simp
  have e: "expo x = e" using assms(1,2) by (rule expo_unique)
  with assms(3) have u: "ulp x = 2 powi (e - 52)" by (simp add: ulp_def max_def)
  have up: "(0::real) < 2 powi (e - 52)" by simp
  have half: "(2::real) powi (e - 53) = 2 powi (e - 52) * (1 / 2)"
    by (simp add: power_int_diff)
  have "\<bar>x / 2 powi (e - 52) - of_int n\<bar> = \<bar>x - of_int n * 2 powi (e - 52)\<bar> / 2 powi (e - 52)"
    using up by (simp add: field_simps abs_divide)
  also have "\<dots> < 1 / 2"
    using assms(4) up unfolding half by (simp add: field_simps)
  finally have "rne (x / 2 powi (e - 52)) = n" by (rule rne_nearest)
  with nz u show ?thesis by (simp add: rnd_def)
qed


lemma rnd_eqI:
  assumes "2 powi e \<le> \<bar>x\<bar>" and "\<bar>x\<bar> < 2 powi (e + 1)" and "- 1022 \<le> e"
    and "v = of_int n * 2 powi (e - 52)" and "\<bar>x - v\<bar> < 2 powi (e - 53)"
  shows "rnd x = v"
  using rnd_nearest [of e x n] assms by simp

lemma rne_error: "\<bar>of_int (rne y) - y\<bar> \<le> 1 / 2"
proof -
  have "0 \<le> y - of_int \<lfloor>y\<rfloor>" "y - of_int \<lfloor>y\<rfloor> < 1" by linarith+
  then show ?thesis by (auto simp add: rne_def Let_def)
qed

lemma rne_ge: "of_int m \<le> y \<Longrightarrow> m \<le> rne y"
proof -
  assume "of_int m \<le> y"
  then have "m \<le> \<lfloor>y\<rfloor>" by (simp add: le_floor_iff)
  then show ?thesis by (auto simp add: rne_def Let_def)
qed

lemma rne_le: "y \<le> of_int m \<Longrightarrow> rne y \<le> m"
proof (cases "y = of_int m")
  case True
  then show ?thesis by (simp add: rne_def Let_def)
next
  case False
  assume "y \<le> of_int m"
  with False have "y < of_int m" by simp
  then have "\<lfloor>y\<rfloor> < m" by (simp add: floor_less_iff)
  then show ?thesis by (auto simp add: rne_def Let_def)
qed

lemma ulp_pos: "0 < ulp x"
  by (simp add: ulp_def)

lemma rnd_nonneg: "0 \<le> x \<Longrightarrow> 0 \<le> rnd x"
proof -
  assume "0 \<le> x"
  then have "of_int 0 \<le> x / ulp x" using ulp_pos [of x] by simp
  then have "0 \<le> rne (x / ulp x)" by (rule rne_ge)
  then show ?thesis using ulp_pos [of x] by (simp add: rnd_def)
qed

lemma rnd_nonpos: "x \<le> 0 \<Longrightarrow> rnd x \<le> 0"
proof -
  assume "x \<le> 0"
  then have "x / ulp x \<le> of_int 0" using ulp_pos [of x] by (simp add: divide_le_0_iff)
  then have "rne (x / ulp x) \<le> 0" by (rule rne_le)
  then show ?thesis using ulp_pos [of x] by (simp add: rnd_def mult_le_0_iff)
qed

lemma rnd_0: "rnd 0 = 0"
  by (simp add: rnd_def)

lemma eta_bounds: "0 < eta" "eta \<le> 1 / 2 ^ 60"
proof -
  show "0 < eta" by (simp only: eta_def zero_less_power_int zero_less_numeral)
  have "(2::real) powi (- 1075) \<le> 2 powi (- 60)"
    by (rule power_int_increasing) simp_all
  also have "\<dots> = 1 / 2 ^ 60" by (simp add: power_int_minus_divide)
  finally show "eta \<le> 1 / 2 ^ 60" by (simp only: eta_def)
qed

lemma eta_tiny: "eta \<le> 1 / 2 ^ 100"
proof -
  have "(2::real) powi (- 1075) \<le> 2 powi (- 100)"
    by (rule power_int_increasing) simp_all
  also have "\<dots> = 1 / 2 ^ 100" by (simp add: power_int_minus_divide)
  finally show ?thesis by (simp only: eta_def)
qed

text \<open>
  The error of one rounding: at most \<open>2 ^ - 53\<close> of the number in the normal range, and
  at most \<open>eta\<close> below it.
\<close>

lemma rnd_error: "\<bar>rnd x - x\<bar> \<le> \<bar>x\<bar> / 2 ^ 53 + eta"
proof (cases "x = 0")
  case True
  then show ?thesis using eta_bounds(1) by (simp add: rnd_def)
next
  case False
  define u where "u = ulp x"
  have u: "0 < u" by (simp add: u_def ulp_pos)
  have "rnd x - x = (of_int (rne (x / u)) - x / u) * u"
    using False u by (simp add: rnd_def u_def field_simps)
  then have "\<bar>rnd x - x\<bar> = \<bar>of_int (rne (x / u)) - x / u\<bar> * u"
    using u by (simp add: abs_mult)
  also have "\<dots> \<le> 1 / 2 * u"
    using rne_error [of "x / u"] u by (intro mult_right_mono) simp_all
  finally have half: "\<bar>rnd x - x\<bar> \<le> u / 2" by simp
  show ?thesis
  proof (cases "- 1022 \<le> expo x")
    case True
    then have "u = 2 powi (expo x - 52)" by (simp add: u_def ulp_def max_def)
    then have "u / 2 = 2 powi expo x / 2 ^ 53"
      by (simp add: power_int_diff)
    also have "\<dots> \<le> \<bar>x\<bar> / 2 ^ 53"
      using expo_bounds(1) [OF False] by (simp add: divide_right_mono)
    finally have "u / 2 \<le> \<bar>x\<bar> / 2 ^ 53" .
    with half eta_bounds(1) show ?thesis by linarith
  next
    case False
    then have m: "max (expo x) (- 1022) = - 1022" by simp
    have "u / 2 = 2 powi (- 1022 - 52) / 2 powi 1"
      unfolding u_def ulp_def m by (simp only: power_int_1_right)
    also have "\<dots> = 2 powi (- 1022 - 52 - 1)"
      by (rule power_int_diff [symmetric]) simp
    also have "\<dots> = eta" unfolding eta_def by simp
    finally show ?thesis using half by simp
  qed
qed

lemma rne_minus: "rne (- y) = - rne y"
proof (cases "\<bar>of_int (rne y) - y\<bar> < 1 / 2")
  case True
  then have "\<bar>- y - of_int (- rne y)\<bar> < 1 / 2" by simp
  then show ?thesis by (rule rne_nearest)
next
  case False
  with rne_error [of y] have tie: "\<bar>of_int (rne y) - y\<bar> = 1 / 2" by linarith
  define f where "f = \<lfloor>y\<rfloor>"
  have fb: "of_int f \<le> y" "y < of_int f + 1" unfolding f_def by linarith+
  have d: "y - of_int f = 1 / 2"
  proof (rule ccontr)
    assume "y - of_int f \<noteq> 1 / 2"
    then consider "y - of_int f < 1 / 2" | "1 / 2 < y - of_int f" by linarith
    then show False
    proof cases
      case 1
      then have "rne y = f" by (simp add: rne_def Let_def f_def)
      with tie 1 fb show False by simp
    next
      case 2
      then have "rne y = f + 1" by (simp add: rne_def Let_def f_def)
      with tie 2 fb show False by simp
    qed
  qed
  have r: "rne y = (if even f then f else f + 1)"
    using d by (simp add: rne_def Let_def f_def)
  have "of_int (- f - 1) \<le> - y" "- y < of_int (- f - 1) + 1" using d by simp_all
  then have fl: "\<lfloor>- y\<rfloor> = - f - 1" by (rule floor_unique)
  have "- y - of_int (- f - 1) = 1 / 2" using d by simp
  then have "rne (- y) = (if even (- f - 1) then - f - 1 else - f)"
    by (simp add: rne_def Let_def fl)
  with r show ?thesis by simp
qed

lemma expo_minus: "expo (- x) = expo x"
  by (simp add: expo_def)

lemma ulp_minus: "ulp (- x) = ulp x"
  by (simp add: ulp_def expo_minus)

lemma rnd_minus: "rnd (- x) = - rnd x"
  by (simp add: rnd_def ulp_minus rne_minus)

lemma rnd_abs: "rnd \<bar>x\<bar> = \<bar>rnd x\<bar>"
proof (cases "0 \<le> x")
  case True
  then show ?thesis using rnd_nonneg [of x] by simp
next
  case False
  then have "x \<le> 0" by simp
  from rnd_nonpos [OF this] False show ?thesis by (simp add: rnd_minus)
qed

lemma expo_mono:
  assumes "x \<noteq> 0" and "\<bar>x\<bar> \<le> \<bar>y\<bar>"
  shows "expo x \<le> expo y"
proof (rule ccontr)
  assume "\<not> expo x \<le> expo y"
  then have "expo y + 1 \<le> expo x" by simp
  then have "(2::real) powi (expo y + 1) \<le> 2 powi expo x"
    by (rule power_int_increasing) simp
  moreover from assms have "y \<noteq> 0" by auto
  ultimately show False
    using expo_bounds(1) [OF assms(1)] expo_bounds(2) [OF \<open>y \<noteq> 0\<close>] assms(2) by linarith
qed

text \<open>
  Rounding does not cross a double: a number at or above a positive double \<open>p\<close> rounds
  to a double at or above \<open>p\<close>.
\<close>

lemma rnd_ge_representable:
  assumes p: "rnd p = p" and pos: "0 < p" and le: "p \<le> x"
  shows "p \<le> rnd x"
proof -
  from pos le have x: "0 < x" "x \<noteq> 0" "p \<noteq> 0" by simp_all
  from pos le have "\<bar>p\<bar> \<le> \<bar>x\<bar>" by simp
  with x(3) have ee: "expo p \<le> expo x" by (rule expo_mono)
  define m where "m = rne (p / ulp p)"
  from p x(3) have pm: "p = of_int m * ulp p" by (simp add: rnd_def m_def)
  show ?thesis
  proof (cases "max (expo p) (- 1022) = max (expo x) (- 1022)")
    case True
    then have u: "ulp p = ulp x" by (simp only: ulp_def)
    from pm le have "of_int m \<le> x / ulp x"
      using ulp_pos [of x] unfolding u by (simp add: field_simps)
    then have "m \<le> rne (x / ulp x)" by (rule rne_ge)
    then have "of_int m * ulp x \<le> of_int (rne (x / ulp x)) * ulp x"
      using ulp_pos [of x] by simp
    with pm x(2) show ?thesis unfolding u by (simp add: rnd_def)
  next
    case False
    with ee have big: "- 1022 < expo x" "expo p + 1 \<le> expo x" by (simp_all add: max_def split: if_splits)
    then have u: "ulp x = 2 powi (expo x - 52)" by (simp add: ulp_def max_def)
    have "2 powi expo x \<le> x" using expo_bounds(1) [OF x(2)] x(1) by simp
    then have "2 powi expo x / 2 powi (expo x - 52) \<le> x / ulp x"
      unfolding u by (simp add: divide_right_mono)
    moreover have "(2::real) powi expo x / 2 powi (expo x - 52) = of_int (2 ^ 52)"
      by (simp add: power_int_diff)
    ultimately have "of_int (2 ^ 52) \<le> x / ulp x" by simp
    then have "2 ^ 52 \<le> rne (x / ulp x)" by (rule rne_ge)
    then have "of_int (2 ^ 52) * ulp x \<le> of_int (rne (x / ulp x)) * ulp x"
      using ulp_pos [of x] by (simp only: mult_le_cancel_right_pos of_int_le_iff)
    moreover have "of_int (2 ^ 52) * ulp x = 2 powi expo x"
      unfolding u by (simp add: power_int_diff)
    ultimately have "2 powi expo x \<le> rnd x" using x(2) by (simp add: rnd_def)
    moreover have "(2::real) powi (expo p + 1) \<le> 2 powi expo x"
      using big(2) by (rule power_int_increasing) simp
    ultimately show ?thesis using expo_bounds(2) [OF x(3)] pos by linarith
  qed
qed

lemma isApprox_b64_sound:
  assumes "rnd p = p" and "isApprox_b64 a b p"
  shows "\<bar>getRad b - getRad a\<bar> < p"
proof (rule ccontr)
  assume "\<not> \<bar>getRad b - getRad a\<bar> < p"
  then have le: "p \<le> \<bar>rad b - rad a\<bar>" by (simp add: getRad_def)
  from assms(2) have lt: "\<bar>rnd (rad b - rad a)\<bar> < p"
    by (simp add: isApprox_b64_def fabs_def double_sub_def)
  then have "0 < p" by linarith
  from rnd_ge_representable [OF assms(1) this le] have "p \<le> \<bar>rnd (rad b - rad a)\<bar>"
    by (simp only: rnd_abs)
  with lt show False by simp
qed

section \<open>The stored value after construction, in binary64\<close>

lemma M_PI_b64_pos: "0 < M_PI_b64"
  by (simp add: M_PI_b64_def)

lemma rnd_2_M_PI_b64: "rnd (2 * M_PI_b64) = 2 * M_PI_b64"
  unfolding M_PI_b64_def
  by (rule rnd_eqI [where e = 2 and n = 7074237752028440]) simp_all

text \<open>
  The three cases of \<open>canonize\<close>, as in the first embedding, each operation rounded.
\<close>

lemma getRad_fromRad_b64_above:
  assumes "M_PI_b64 < r"
  shows "getRad (fromRad_b64 r) =
    rnd (- M_PI_b64 + rnd (2 * M_PI_b64 *
      (rnd (rnd (r - M_PI_b64) / (2 * M_PI_b64)) -
       of_int \<lfloor>rnd (rnd (r - M_PI_b64) / (2 * M_PI_b64))\<rfloor>)))"
proof -
  from assms M_PI_b64_pos have sgn: "\<not> r < 0" by linarith
  from assms have "0 \<le> rnd (r - M_PI_b64)" by (intro rnd_nonneg) simp
  with M_PI_b64_pos have "0 \<le> rnd (r - M_PI_b64) / (2 * M_PI_b64)" by simp
  then have q: "0 \<le> rnd (rnd (r - M_PI_b64) / (2 * M_PI_b64))" by (rule rnd_nonneg)
  have side: "copysign M_PI_b64 r = M_PI_b64"
    using M_PI_b64_pos by (simp add: copysign_of_nonneg [OF sgn])
  have "rad (canonize_b64 \<lparr>rad = r\<rparr>) =
    rnd (- M_PI_b64 + rnd (2 * M_PI_b64 *
      (rnd (rnd (r - M_PI_b64) / (2 * M_PI_b64)) -
       of_int \<lfloor>rnd (rnd (r - M_PI_b64) / (2 * M_PI_b64))\<rfloor>)))"
    using assms
    by (simp add: canonize_b64_def side rnd_2_M_PI_b64 double_sub_def double_div_def
        double_add_def double_mul_def modf_of_nonneg [OF q])
  then show ?thesis by (simp add: getRad_def fromRad_b64_def Angle_ctor_b64_def)
qed

lemma getRad_fromRad_b64_below:
  assumes "r \<le> - M_PI_b64"
  shows "getRad (fromRad_b64 r) =
    rnd (M_PI_b64 + rnd (2 * M_PI_b64 *
      (rnd (rnd (r + M_PI_b64) / (2 * M_PI_b64)) -
       of_int \<lceil>rnd (rnd (r + M_PI_b64) / (2 * M_PI_b64))\<rceil>)))"
proof -
  from assms M_PI_b64_pos have sgn: "r < 0" by linarith
  from assms have "rnd (r + M_PI_b64) \<le> 0" by (intro rnd_nonpos) simp
  with M_PI_b64_pos have "rnd (r + M_PI_b64) / (2 * M_PI_b64) \<le> 0"
    by (simp add: divide_le_0_iff)
  then have q: "rnd (rnd (r + M_PI_b64) / (2 * M_PI_b64)) \<le> 0" by (rule rnd_nonpos)
  have side: "copysign M_PI_b64 r = - M_PI_b64"
    using M_PI_b64_pos by (simp add: copysign_of_neg [OF sgn])
  have "rad (canonize_b64 \<lparr>rad = r\<rparr>) =
    rnd (rnd (2 * M_PI_b64 *
      (rnd (rnd (r + M_PI_b64) / (2 * M_PI_b64)) -
       of_int \<lceil>rnd (rnd (r + M_PI_b64) / (2 * M_PI_b64))\<rceil>)) + M_PI_b64)"
    using assms
    by (simp add: canonize_b64_def side rnd_2_M_PI_b64 double_sub_def double_div_def
        double_add_def double_mul_def modf_of_nonpos [OF q])
  then show ?thesis by (simp add: getRad_def fromRad_b64_def Angle_ctor_b64_def add.commute)
qed

lemma getRad_fromRad_b64_canonical:
  assumes "- M_PI_b64 < r" and "r \<le> M_PI_b64"
  shows "getRad (fromRad_b64 r) = r"
  using assms by (simp add: getRad_def fromRad_b64_def Angle_ctor_b64_def canonize_b64_def)

text \<open>
  A crude bound on the stored value, enough for the error of \<open>getDeg\<close>.
\<close>

lemma abs_getRad_fromRad_b64_le: "\<bar>getRad (fromRad_b64 r)\<bar> \<le> 4"
proof -
  have P: "3 < M_PI_b64" "M_PI_b64 < 16 / 5" by (simp_all add: M_PI_b64_def)
  have small: "eta \<le> 1 / 100" using eta_bounds(2) by simp
  have crude: "\<bar>rnd y\<bar> \<le> B + B / 100 + 1 / 100" if "\<bar>y\<bar> \<le> B" for y B
  proof -
    define Y where "Y = \<bar>y\<bar>"
    define A where "A = \<bar>rnd y - y\<bar>"
    have "Y / 2 ^ 53 \<le> Y / 100" unfolding Y_def by (intro divide_left_mono) simp_all
    moreover have "A \<le> Y / 2 ^ 53 + eta" unfolding A_def Y_def by (rule rnd_error)
    moreover have "\<bar>rnd y\<bar> \<le> A + Y" unfolding A_def Y_def by linarith
    moreover have "Y \<le> B" unfolding Y_def by (rule that)
    ultimately show ?thesis using small by linarith
  qed
  have step: "\<bar>rnd (c + rnd g)\<bar> \<le> 4" if g: "\<bar>g\<bar> \<le> 2 * M_PI_b64" and c: "\<bar>c\<bar> = M_PI_b64"
    and sg: "(0 \<le> g \<and> c < 0) \<or> (g \<le> 0 \<and> 0 < c)" for c g
  proof -
    from g P have "\<bar>g\<bar> \<le> 32 / 5" by linarith
    from crude [OF this] have t: "\<bar>rnd g\<bar> \<le> 13 / 2" by simp
    from sg rnd_nonneg [of g] rnd_nonpos [of g]
    have "(0 \<le> rnd g \<and> c < 0) \<or> (rnd g \<le> 0 \<and> 0 < c)" by auto
    then have "\<bar>c + rnd g\<bar> \<le> 7 / 2"
    proof (elim disjE conjE)
      assume "0 \<le> rnd g" "c < 0"
      with t c P show ?thesis by linarith
    next
      assume "rnd g \<le> 0" "0 < c"
      with t c P show ?thesis by linarith
    qed
    from crude [OF this] show ?thesis by simp
  qed
  consider (hi) "M_PI_b64 < r" | (lo) "r \<le> - M_PI_b64" | (mid) "- M_PI_b64 < r" "r \<le> M_PI_b64"
    by linarith
  then show ?thesis
  proof cases
    case hi
    define q where "q = rnd (rnd (r - M_PI_b64) / (2 * M_PI_b64))"
    define g where "g = 2 * M_PI_b64 * (q - of_int \<lfloor>q\<rfloor>)"
    have f: "0 \<le> q - of_int \<lfloor>q\<rfloor>" "q - of_int \<lfloor>q\<rfloor> < 1" by linarith+
    have g0: "0 \<le> g" unfolding g_def using f(1) P by (intro mult_nonneg_nonneg) simp_all
    have "g \<le> 2 * M_PI_b64 * 1" unfolding g_def using f(2) P by (intro mult_left_mono) simp_all
    with g0 have 1: "\<bar>g\<bar> \<le> 2 * M_PI_b64" by simp
    have 2: "\<bar>- M_PI_b64\<bar> = M_PI_b64" using P by simp
    have 3: "(0 \<le> g \<and> - M_PI_b64 < 0) \<or> (g \<le> 0 \<and> 0 < - M_PI_b64)" using g0 P by simp
    from step [OF 1 2 3] show ?thesis
      unfolding getRad_fromRad_b64_above [OF hi] q_def [symmetric] g_def [symmetric] .
  next
    case lo
    define q where "q = rnd (rnd (r + M_PI_b64) / (2 * M_PI_b64))"
    define g where "g = 2 * M_PI_b64 * (q - of_int \<lceil>q\<rceil>)"
    have f: "q - of_int \<lceil>q\<rceil> \<le> 0" "- 1 < q - of_int \<lceil>q\<rceil>" by linarith+
    have g0: "g \<le> 0" unfolding g_def using f(1) P by (intro mult_nonneg_nonpos) simp_all
    have "2 * M_PI_b64 * (- 1) \<le> g" unfolding g_def using f(2) P by (intro mult_left_mono) simp_all
    with g0 have 1: "\<bar>g\<bar> \<le> 2 * M_PI_b64" by simp
    have 2: "\<bar>M_PI_b64\<bar> = M_PI_b64" using P by simp
    have 3: "(0 \<le> g \<and> M_PI_b64 < 0) \<or> (g \<le> 0 \<and> 0 < M_PI_b64)" using g0 P by simp
    from step [OF 1 2 3] show ?thesis
      unfolding getRad_fromRad_b64_below [OF lo] q_def [symmetric] g_def [symmetric] .
  next
    case mid
    with P show ?thesis by (simp add: getRad_fromRad_b64_canonical)
  qed
qed

subsection \<open>The error of the reduction\<close>

text \<open>
  The errors of the four roundings of \<open>canonize\<close> add up to at most
  \<open>(|r| + 4) / 2 ^ 51\<close>; the branch for negative inputs is the mirror image.
\<close>

lemma reduction_error_above:
  fixes r a q t s :: real and n :: int
  assumes r: "M_PI_b64 \<le> r"
    and a: "0 \<le> a"
    and e1: "\<bar>a - (r - M_PI_b64)\<bar> \<le> \<bar>r - M_PI_b64\<bar> / 2 ^ 53 + eta"
    and e2: "\<bar>q - a / (2 * M_PI_b64)\<bar> \<le> \<bar>a / (2 * M_PI_b64)\<bar> / 2 ^ 53 + eta"
    and f: "0 \<le> q - of_int n" "q - of_int n < 1"
    and e3: "\<bar>t - 2 * M_PI_b64 * (q - of_int n)\<bar> \<le> \<bar>2 * M_PI_b64 * (q - of_int n)\<bar> / 2 ^ 53 + eta"
    and e4: "\<bar>s - (- M_PI_b64 + t)\<bar> \<le> \<bar>- M_PI_b64 + t\<bar> / 2 ^ 53 + eta"
  shows "\<bar>s - (r - 2 * M_PI_b64 * of_int (n + 1))\<bar> \<le> (\<bar>r\<bar> + 4) / 2 ^ 51"
proof -
  define P :: real where "P = M_PI_b64"
  have P: "3 < P" "P < 16 / 5" by (simp_all add: P_def M_PI_b64_def)
  note eta = eta_bounds
  define f where "f = q - of_int n"
  define E :: real where "E = 1 / 2 ^ 53"
  have E: "0 < E" "E = 1 / 9007199254740992" by (simp_all add: E_def)
  from r have rp: "\<bar>r - P\<bar> = r - P" "\<bar>r\<bar> = r" using P by (simp_all add: P_def)
  from e1 have d1: "\<bar>a - (r - P)\<bar> \<le> (r - P) * E + eta"
    unfolding P_def [symmetric] rp E_def by simp
  have ap: "\<bar>a / (2 * P)\<bar> = a / (2 * P)" using a P by simp
  from e2 have d2a: "\<bar>q - a / (2 * P)\<bar> \<le> a / (2 * P) * E + eta"
    unfolding P_def [symmetric] ap E_def by simp
  have "2 * P * q - a = 2 * P * (q - a / (2 * P))" using P by (simp add: field_simps)
  then have "\<bar>2 * P * q - a\<bar> = 2 * P * \<bar>q - a / (2 * P)\<bar>"
    using P by (simp add: abs_mult)
  also have "\<dots> \<le> 2 * P * (a / (2 * P) * E + eta)"
    using d2a P by (intro mult_left_mono) simp_all
  also have "\<dots> = a * E + 2 * P * eta" using P by (simp add: field_simps)
  finally have d2: "\<bar>2 * P * q - a\<bar> \<le> a * E + 2 * P * eta" .
  define g where "g = 2 * P * f"
  define PE where "PE = 7 * E"
  have g: "0 \<le> g" "g \<le> 2 * P" using f P by (simp_all add: g_def f_def)
  have PE: "0 \<le> PE" "PE \<le> 1 / 2 ^ 49" by (simp_all add: PE_def E)
  have PE7: "2 * P * E \<le> 7 * E" using P E(1) by (intro mult_right_mono) simp_all
  from g(1) have ga: "\<bar>2 * P * f\<bar> = g" by (simp add: g_def)
  from e3 have d3: "\<bar>t - g\<bar> \<le> g * E + eta"
    unfolding P_def [symmetric] f_def [symmetric] ga E_def unfolding g_def [symmetric] by simp
  have "g * E \<le> 2 * P * E" using g(2) E(1) by (rule mult_right_mono [OF _ less_imp_le])
  with d3 PE7 have d3': "\<bar>t - g\<bar> \<le> PE + eta" unfolding PE_def by linarith
  from e4 have d4: "\<bar>s - (- P + t)\<bar> \<le> \<bar>- P + t\<bar> * E + eta"
    unfolding P_def [symmetric] E_def by simp
  have small: "PE \<le> 1 / 4" "eta \<le> 1 / 4" using PE(2) eta(2) by simp_all
  have tb: "\<bar>- P + t\<bar> \<le> 4" using d3' g P small by linarith
  have "\<bar>- P + t\<bar> * E \<le> 4 * E" using tb E(1) by (rule mult_right_mono [OF _ less_imp_le])
  with d4 have d4': "\<bar>s - (- P + t)\<bar> \<le> 4 * E + eta" by linarith
  have "(r - P) * E \<le> r * E" using P E(1) by (simp add: mult_right_mono)
  moreover have "r * E \<le> r / 2 ^ 53" by (simp add: E_def)
  ultimately have ab: "a \<le> r + r / 2 ^ 53" using d1 P small(2) by linarith
  have "a * E \<le> (r + r / 2 ^ 53) * E" using ab E(1) by (rule mult_right_mono [OF _ less_imp_le])
  with d2 have d2': "\<bar>2 * P * q - a\<bar> \<le> (r + r / 2 ^ 53) * E + 2 * P * eta" by linarith
  have Peta: "2 * P * eta \<le> 7 * eta" using P eta(1) by (simp add: mult_right_mono)
  have split: "s - (r - 2 * P * of_int (n + 1)) =
    (s - (- P + t)) + (t - g) + (2 * P * q - a) + (a - (r - P))"
    by (simp add: g_def f_def algebra_simps)
  have "\<bar>s - (r - 2 * P * of_int (n + 1))\<bar> \<le>
    (4 * E + eta) + (PE + eta) + ((r + r / 2 ^ 53) * E + 7 * eta) + ((r - P) * E + eta)"
    unfolding split using d4' d3' d2' d1 Peta by linarith
  also have "\<dots> \<le> (r + 4) / 2 ^ 51"
  proof -
    have "0 < r" using r M_PI_b64_pos by linarith
    have e60: "eta \<le> 1 / 1152921504606846976" using eta(2) by simp
    have "(4 * E + eta) + (PE + eta) + ((r + r / 2 ^ 53) * E + 7 * eta) + ((r - P) * E + eta)
      = (11 + 2 * r - P + r / 9007199254740992) / 9007199254740992 + 10 * eta"
      unfolding E(2) PE_def by (simp add: field_simps)
    also have "\<dots> \<le> (4 * r + 16) / 9007199254740992"
    proof -
      have "r / 9007199254740992 \<le> r" using \<open>0 < r\<close> by simp
      moreover have "10 * eta \<le> 1 / 9007199254740992" using e60 by linarith
      ultimately have "11 + 2 * r - P + r / 9007199254740992 + 10 * eta * 9007199254740992
        \<le> 4 * r + 16" using P \<open>0 < r\<close> by linarith
      then show ?thesis by (simp add: field_simps)
    qed
    also have "\<dots> = (r + 4) / 2 ^ 51" by simp
    finally show ?thesis .
  qed
  finally show ?thesis unfolding P_def rp .
qed


lemma reduction_error_below:
  fixes r a q t s :: real and n :: int
  assumes r: "r \<le> - M_PI_b64"
    and a: "a \<le> 0"
    and e1: "\<bar>a - (r + M_PI_b64)\<bar> \<le> \<bar>r + M_PI_b64\<bar> / 2 ^ 53 + eta"
    and e2: "\<bar>q - a / (2 * M_PI_b64)\<bar> \<le> \<bar>a / (2 * M_PI_b64)\<bar> / 2 ^ 53 + eta"
    and f: "q - of_int n \<le> 0" "- 1 < q - of_int n"
    and e3: "\<bar>t - 2 * M_PI_b64 * (q - of_int n)\<bar> \<le> \<bar>2 * M_PI_b64 * (q - of_int n)\<bar> / 2 ^ 53 + eta"
    and e4: "\<bar>s - (M_PI_b64 + t)\<bar> \<le> \<bar>M_PI_b64 + t\<bar> / 2 ^ 53 + eta"
  shows "\<bar>s - (r - 2 * M_PI_b64 * of_int (n - 1))\<bar> \<le> (\<bar>r\<bar> + 4) / 2 ^ 51"
proof -
  have 1: "M_PI_b64 \<le> - r" using r by simp
  have 2: "0 \<le> - a" using a by simp
  have 3: "\<bar>- a - (- r - M_PI_b64)\<bar> \<le> \<bar>- r - M_PI_b64\<bar> / 2 ^ 53 + eta"
  proof -
    have "- a - (- r - M_PI_b64) = - (a - (r + M_PI_b64))" "- r - M_PI_b64 = - (r + M_PI_b64)"
      by simp_all
    then show ?thesis using e1 by (simp only: abs_minus_cancel)
  qed
  have 4: "\<bar>- q - - a / (2 * M_PI_b64)\<bar> \<le> \<bar>- a / (2 * M_PI_b64)\<bar> / 2 ^ 53 + eta"
  proof -
    have "- q - - a / (2 * M_PI_b64) = - (q - a / (2 * M_PI_b64))"
      "- a / (2 * M_PI_b64) = - (a / (2 * M_PI_b64))" by simp_all
    then show ?thesis using e2 by (simp only: abs_minus_cancel)
  qed
  have 5: "0 \<le> - q - of_int (- n)" "- q - of_int (- n) < 1" using f by simp_all
  have 6: "\<bar>- t - 2 * M_PI_b64 * (- q - of_int (- n))\<bar>
    \<le> \<bar>2 * M_PI_b64 * (- q - of_int (- n))\<bar> / 2 ^ 53 + eta"
  proof -
    have "- t - 2 * M_PI_b64 * (- q - of_int (- n)) = - (t - 2 * M_PI_b64 * (q - of_int n))"
      "2 * M_PI_b64 * (- q - of_int (- n)) = - (2 * M_PI_b64 * (q - of_int n))"
      by (simp_all add: algebra_simps)
    then show ?thesis using e3 by (simp only: abs_minus_cancel)
  qed
  have 7: "\<bar>- s - (- M_PI_b64 + - t)\<bar> \<le> \<bar>- M_PI_b64 + - t\<bar> / 2 ^ 53 + eta"
  proof -
    have "- s - (- M_PI_b64 + - t) = - (s - (M_PI_b64 + t))"
      "- M_PI_b64 + - t = - (M_PI_b64 + t)" by simp_all
    then show ?thesis using e4 by (simp only: abs_minus_cancel)
  qed
  have "- s - (- r - 2 * M_PI_b64 * of_int (- n + 1))
    = - (s - (r - 2 * M_PI_b64 * of_int (n - 1)))" by (simp add: algebra_simps)
  with reduction_error_above [OF 1 2 3 4 5 6 7] show ?thesis
    by (simp only: abs_minus_cancel)
qed

lemma getRad_fromRad_b64_congruent_approx:
  "\<exists>k::int. \<bar>getRad (fromRad_b64 r) - (r - 2 * M_PI_b64 * of_int k)\<bar> \<le> (\<bar>r\<bar> + 4) / 2 ^ 51"
proof -
  consider (hi) "M_PI_b64 < r" | (lo) "r \<le> - M_PI_b64" | (mid) "- M_PI_b64 < r" "r \<le> M_PI_b64"
    by linarith
  then show ?thesis
  proof cases
    case hi
    define a where "a = rnd (r - M_PI_b64)"
    define q where "q = rnd (a / (2 * M_PI_b64))"
    define t where "t = rnd (2 * M_PI_b64 * (q - of_int \<lfloor>q\<rfloor>))"
    define s where "s = rnd (- M_PI_b64 + t)"
    have s: "getRad (fromRad_b64 r) = s"
      unfolding getRad_fromRad_b64_above [OF hi] s_def t_def q_def a_def ..
    from hi have "0 \<le> a" unfolding a_def by (intro rnd_nonneg) simp
    moreover have "0 \<le> q - of_int \<lfloor>q\<rfloor>" "q - of_int \<lfloor>q\<rfloor> < 1" by linarith+
    moreover from hi have "M_PI_b64 \<le> r" by simp
    ultimately have "\<bar>s - (r - 2 * M_PI_b64 * of_int (\<lfloor>q\<rfloor> + 1))\<bar> \<le> (\<bar>r\<bar> + 4) / 2 ^ 51"
      using rnd_error [of "r - M_PI_b64"] rnd_error [of "a / (2 * M_PI_b64)"]
        rnd_error [of "2 * M_PI_b64 * (q - of_int \<lfloor>q\<rfloor>)"] rnd_error [of "- M_PI_b64 + t"]
      unfolding a_def [symmetric] q_def [symmetric] t_def [symmetric] s_def [symmetric]
      by (intro reduction_error_above [where a = a and q = q and t = t])
    then show ?thesis unfolding s ..
  next
    case lo
    define a where "a = rnd (r + M_PI_b64)"
    define q where "q = rnd (a / (2 * M_PI_b64))"
    define t where "t = rnd (2 * M_PI_b64 * (q - of_int \<lceil>q\<rceil>))"
    define s where "s = rnd (M_PI_b64 + t)"
    have s: "getRad (fromRad_b64 r) = s"
      unfolding getRad_fromRad_b64_below [OF lo] s_def t_def q_def a_def ..
    from lo have "a \<le> 0" unfolding a_def by (intro rnd_nonpos) simp
    moreover have "q - of_int \<lceil>q\<rceil> \<le> 0" "- 1 < q - of_int \<lceil>q\<rceil>" by linarith+
    ultimately have "\<bar>s - (r - 2 * M_PI_b64 * of_int (\<lceil>q\<rceil> - 1))\<bar> \<le> (\<bar>r\<bar> + 4) / 2 ^ 51"
      using lo rnd_error [of "r + M_PI_b64"] rnd_error [of "a / (2 * M_PI_b64)"]
        rnd_error [of "2 * M_PI_b64 * (q - of_int \<lceil>q\<rceil>)"] rnd_error [of "M_PI_b64 + t"]
      unfolding a_def [symmetric] q_def [symmetric] t_def [symmetric] s_def [symmetric]
      by (intro reduction_error_below [where a = a and q = q and t = t])
    then show ?thesis unfolding s ..
  next
    case mid
    then have "\<bar>getRad (fromRad_b64 r) - (r - 2 * M_PI_b64 * of_int 0)\<bar> \<le> (\<bar>r\<bar> + 4) / 2 ^ 51"
      by (simp add: getRad_fromRad_b64_canonical)
    then show ?thesis ..
  qed
qed

text \<open>
  The same account for \<open>fromDeg\<close> followed by \<open>getDeg\<close>: two roundings on the way in,
  the reduction, two roundings on the way out.
\<close>

lemma round_trip_error:
  fixes d v r s w g :: real and k :: int
  assumes ev: "\<bar>v - d / 180\<bar> \<le> \<bar>d / 180\<bar> / 2 ^ 53 + eta"
    and er: "\<bar>r - v * M_PI_b64\<bar> \<le> \<bar>v * M_PI_b64\<bar> / 2 ^ 53 + eta"
    and es: "\<bar>s - (r - 2 * M_PI_b64 * of_int k)\<bar> \<le> (\<bar>r\<bar> + 4) / 2 ^ 51"
    and sb: "\<bar>s\<bar> \<le> 4"
    and ew: "\<bar>w - s / M_PI_b64\<bar> \<le> \<bar>s / M_PI_b64\<bar> / 2 ^ 53 + eta"
    and eg: "\<bar>g - w * 180\<bar> \<le> \<bar>w * 180\<bar> / 2 ^ 53 + eta"
  shows "\<bar>g - (d - 360 * of_int k)\<bar> \<le> (\<bar>d\<bar> + 360) / 2 ^ 50"
proof -
  define P :: real where "P = M_PI_b64"
  have P: "3 < P" "P < 16 / 5" by (simp_all add: P_def M_PI_b64_def)
  define E :: real where "E = 1 / 2 ^ 53"
  have E: "0 < E" "E \<le> 1 / 1000" by (simp_all add: E_def)
  have eta: "0 < eta" "eta \<le> E / 1000" using eta_bounds(1) eta_tiny by (simp_all add: E_def)
  define D where "D = \<bar>d\<bar>"
  define V where "V = \<bar>v\<bar>"
  define R where "R = \<bar>r\<bar>"
  define W where "W = \<bar>w\<bar>"
  define S where "S = \<bar>s / P\<bar>"
  define VP where "VP = \<bar>v * P\<bar>"
  have nn: "0 \<le> D" "0 \<le> V" "0 \<le> R" "0 \<le> W" "0 \<le> S"
    by (simp_all add: D_def V_def R_def W_def S_def)
  \<comment> \<open>the five rounding errors\<close>
  define a1 where "a1 = \<bar>v - d / 180\<bar>"
  define a2 where "a2 = \<bar>r - v * P\<bar>"
  define a3 where "a3 = \<bar>s - (r - 2 * P * of_int k)\<bar>"
  define a4 where "a4 = \<bar>w - s / P\<bar>"
  define a5 where "a5 = \<bar>g - w * 180\<bar>"
  define X where "X = D * E"
  have X: "0 \<le> X" "X \<le> D / 1000"
    using nn(1) E mult_left_mono [of E "1 / 1000" D] by (simp_all add: X_def)
  have "\<bar>d / 180\<bar> / 2 ^ 53 = X / 180" by (simp add: D_def X_def E_def)
  with ev have b1: "a1 \<le> X / 180 + eta" by (simp add: a1_def)
  have "V \<le> a1 + D / 180" unfolding V_def a1_def D_def by linarith
  with b1 have V: "V \<le> D / 180 + X / 180 + eta" by linarith
  have VP: "VP = V * P" using P by (simp add: VP_def V_def abs_mult)
  have "V * P \<le> V * (16 / 5)" using P nn(2) by (intro mult_left_mono) simp_all
  with VP have VP': "VP \<le> 16 / 5 * V" by simp
  from er have b2: "a2 \<le> VP * E + eta" by (simp add: a2_def VP_def E_def P_def)
  have "R \<le> a2 + VP" unfolding R_def a2_def VP_def by linarith
  with b2 have R: "R \<le> VP + VP * E + eta" by linarith
  from es have b3: "a3 \<le> (R + 4) * (4 * E)" by (simp add: a3_def R_def E_def P_def)
  have "S = \<bar>s\<bar> / P" using P by (simp add: S_def)
  also have "\<dots> \<le> 4 / P" using sb P by (intro divide_right_mono) simp_all
  also have "\<dots> \<le> 4 / 3" using P by (intro divide_left_mono) simp_all
  finally have S: "S \<le> 4 / 3" .
  from ew have b4: "a4 \<le> S * E + eta" by (simp add: a4_def S_def E_def P_def)
  have "W \<le> a4 + S" unfolding W_def a4_def S_def by linarith
  with b4 have W: "W \<le> S + S * E + eta" by linarith
  have "\<bar>w * 180\<bar> = 180 * W" by (simp add: W_def)
  with eg have b5: "a5 \<le> 180 * W * E + eta" by (simp add: a5_def E_def)
  \<comment> \<open>products of two small quantities\<close>
  have SE: "S * E \<le> 4 / 3 * E" using S E(1) by (intro mult_right_mono) simp_all
  have "W \<le> 2" using W SE E(2) eta S by linarith
  then have WE: "W * E \<le> 2 * E" using E(1) by (intro mult_right_mono) simp_all
  have V': "V \<le> D / 179 + eta" using V X by linarith
  have "V * E \<le> (D / 179 + eta) * E" using V' E(1) by (intro mult_right_mono) simp_all
  moreover have "eta * E \<le> eta * 1" using E eta(1) by (intro mult_left_mono) simp_all
  ultimately have VE: "V * E \<le> X / 179 + eta" by (simp add: algebra_simps X_def)
  have "VP * E \<le> 16 / 5 * V * E" using VP' E(1) by (simp add: mult_right_mono)
  with VE have VPE: "VP * E \<le> 16 / 5 * (X / 179) + 16 / 5 * eta" by simp
  have "eta \<le> 1 / 1000" using eta(2) E(2) by linarith
  then have R': "R \<le> D / 55 + 1" using R VPE VP' V' X by linarith
  have "R * E \<le> (D / 55 + 1) * E" using R' E(1) by (intro mult_right_mono) simp_all
  then have RE: "R * E \<le> X / 55 + E" by (simp add: algebra_simps X_def)
  \<comment> \<open>the difference, term by term\<close>
  define u2 where "u2 = 180 * (w - s / P)"
  define u3 where "u3 = 180 / P * (s - (r - 2 * P * of_int k))"
  define u4 where "u4 = 180 / P * (r - v * P)"
  define u5 where "u5 = 180 * (v - d / 180)"
  have split: "g - (d - 360 * of_int k) = (g - w * 180) + u2 + u3 + u4 + u5"
    unfolding u2_def u3_def u4_def u5_def using P by (simp add: field_simps)
  have c: "0 \<le> 180 / P" "180 / P \<le> 60" using P by (simp_all add: field_simps)
  have "\<bar>u3\<bar> = 180 / P * a3"
    by (simp only: u3_def abs_mult abs_of_nonneg [OF c(1)] a3_def)
  also have "\<dots> \<le> 60 * a3" using c(2) by (intro mult_right_mono) (simp_all add: a3_def)
  finally have t3: "\<bar>u3\<bar> \<le> 60 * a3" .
  have "\<bar>u4\<bar> = 180 / P * a2"
    by (simp only: u4_def abs_mult abs_of_nonneg [OF c(1)] a2_def)
  also have "\<dots> \<le> 60 * a2" using c(2) by (intro mult_right_mono) (simp_all add: a2_def)
  finally have t4: "\<bar>u4\<bar> \<le> 60 * a2" .
  have t2: "\<bar>u2\<bar> = 180 * a4"
    by (simp only: u2_def abs_mult abs_numeral a4_def)
  have t5: "\<bar>u5\<bar> = 180 * a1"
    by (simp only: u5_def abs_mult abs_numeral a1_def)
  have "\<bar>g - (d - 360 * of_int k)\<bar> \<le> a5 + 180 * a4 + 60 * a3 + 60 * a2 + 180 * a1"
    unfolding split a5_def using t2 t3 t4 t5 by linarith
  also have "\<dots> \<le> 8 * X + 2880 * E"
  proof -
    have "a5 \<le> 360 * E + eta" using b5 WE by linarith
    moreover have "180 * a4 \<le> 240 * E + 180 * eta" using b4 SE by linarith
    moreover have "a3 \<le> 4 * (R * E) + 16 * E" using b3 by (simp add: algebra_simps)
    then have "60 * a3 \<le> 240 * (X / 55) + 1200 * E" using RE by linarith
    moreover have "60 * a2 \<le> 192 * (X / 179) + 252 * eta" using b2 VPE by linarith
    moreover have "180 * a1 \<le> X + 180 * eta" using b1 by linarith
    ultimately show ?thesis using eta(2) X(1) E(1) by linarith
  qed
  also have "\<dots> = (8 * D + 2880) * E" by (simp add: X_def algebra_simps)
  also have "\<dots> = (\<bar>d\<bar> + 360) / 2 ^ 50" by (simp add: E_def D_def)
  finally show ?thesis .
qed

subsection \<open>Values at given inputs\<close>

text \<open>
  Each step below is one rounding of the code, evaluated with \<open>rnd_eqI\<close>.
\<close>

lemma rnd_M_PI_b64: "rnd M_PI_b64 = M_PI_b64"
  unfolding M_PI_b64_def
  by (rule rnd_eqI [where e = 1 and n = 7074237752028440]) simp_all

lemma rnd_minus_M_PI_b64: "rnd (- M_PI_b64) = - M_PI_b64"
  unfolding M_PI_b64_def
  by (rule rnd_eqI [where e = 1 and n = "- 7074237752028440"]) simp_all

lemma fromDeg_b64_fromRad_b64: "fromDeg_b64 d = fromRad_b64 (rnd (rnd (d / 180) * M_PI_b64))"
  by (simp add: fromDeg_b64_def fromRad_b64_def double_mul_def double_div_def)

lemma getDeg_b64_getRad: "getDeg_b64 a = rnd (rnd (getRad a / M_PI_b64) * 180)"
  by (simp add: getDeg_b64_def getRad_def double_mul_def double_div_def)

lemma getRad_fromRad_b64_1e17: "getRad (fromRad_b64 100000000000000000) = - M_PI_b64"
proof -
  have gt: "M_PI_b64 < 100000000000000000" by (simp add: M_PI_b64_def)
  have a: "rnd (100000000000000000 - M_PI_b64) = 100000000000000000"
    unfolding M_PI_b64_def
    by (rule rnd_eqI [where e = 56 and n = 6250000000000000]) simp_all
  have q: "rnd (100000000000000000 / (2 * M_PI_b64)) = 15915494309189534"
    unfolding M_PI_b64_def
    by (rule rnd_eqI [where e = 53 and n = 7957747154594767]) simp_all
  show ?thesis
    unfolding getRad_fromRad_b64_above [OF gt] a q
    by (simp add: rnd_0 rnd_minus_M_PI_b64)
qed

lemma getRad_fromDeg_b64_170:
  "getRad (fromDeg_b64 170) = 6681224543582415 / 2251799813685248"
proof -
  have v: "rnd (170 / 180) = 4253399648072135 / 4503599627370496"
    by (rule rnd_eqI [where e = "- 1" and n = 8506799296144270]) simp_all
  have r: "rnd (4253399648072135 / 4503599627370496 * M_PI_b64)
      = 6681224543582415 / 2251799813685248"
    unfolding M_PI_b64_def
    by (rule rnd_eqI [where e = 1 and n = 6681224543582415]) simp_all
  have "getRad (fromRad_b64 (6681224543582415 / 2251799813685248))
      = 6681224543582415 / 2251799813685248"
    by (rule getRad_fromRad_b64_canonical) (simp_all add: M_PI_b64_def)
  then show ?thesis unfolding fromDeg_b64_fromRad_b64 v r .
qed




lemma getDeg_b64_fromDeg_b64_approx:
  "\<exists>k::int. \<bar>getDeg_b64 (fromDeg_b64 d) - (d - 360 * of_int k)\<bar> \<le> (\<bar>d\<bar> + 360) / 2 ^ 50"
proof -
  define v where "v = rnd (d / 180)"
  define r where "r = rnd (v * M_PI_b64)"
  define s where "s = getRad (fromRad_b64 r)"
  define w where "w = rnd (s / M_PI_b64)"
  define g where "g = rnd (w * 180)"
  have g: "getDeg_b64 (fromDeg_b64 d) = g"
    unfolding getDeg_b64_getRad fromDeg_b64_fromRad_b64 g_def w_def s_def r_def v_def ..
  obtain k :: int where k: "\<bar>s - (r - 2 * M_PI_b64 * of_int k)\<bar> \<le> (\<bar>r\<bar> + 4) / 2 ^ 51"
    unfolding s_def using getRad_fromRad_b64_congruent_approx by blast
  have "\<bar>s\<bar> \<le> 4" unfolding s_def by (rule abs_getRad_fromRad_b64_le)
  with k have "\<bar>g - (d - 360 * of_int k)\<bar> \<le> (\<bar>d\<bar> + 360) / 2 ^ 50"
    using rnd_error [of "d / 180"] rnd_error [of "v * M_PI_b64"]
      rnd_error [of "s / M_PI_b64"] rnd_error [of "w * 180"]
    unfolding v_def [symmetric] r_def [symmetric] w_def [symmetric] g_def [symmetric]
    by (intro round_trip_error [where v = v and r = r and s = s and w = w])
  then show ?thesis unfolding g ..
qed

lemma getRad_fromDeg_b64_1e19: "getRad (fromDeg_b64 10000000000000000000) = - M_PI_b64"
proof -
  have v: "rnd (10000000000000000000 / 180) = 55555555555555552"
    by (rule rnd_eqI [where e = 55 and n = 6944444444444444]) simp_all
  have r: "rnd (55555555555555552 * M_PI_b64) = 174532925199432928"
    unfolding M_PI_b64_def
    by (rule rnd_eqI [where e = 57 and n = 5454153912482279]) simp_all
  have gt: "M_PI_b64 < 174532925199432928" by (simp add: M_PI_b64_def)
  have a: "rnd (174532925199432928 - M_PI_b64) = 174532925199432928"
    unfolding M_PI_b64_def
    by (rule rnd_eqI [where e = 57 and n = 5454153912482279]) simp_all
  have q: "rnd (174532925199432928 / (2 * M_PI_b64)) = 27777777777777776"
    unfolding M_PI_b64_def
    by (rule rnd_eqI [where e = 54 and n = 6944444444444444]) simp_all
  show ?thesis
    unfolding fromDeg_b64_fromRad_b64 v r getRad_fromRad_b64_above [OF gt] a q
    by (simp add: rnd_0 rnd_minus_M_PI_b64)
qed

lemma getDeg_b64_fromDeg_b64_1e19: "getDeg_b64 (fromDeg_b64 10000000000000000000) = - 180"
proof -
  have one: "rnd (- 1) = - 1"
    by (rule rnd_eqI [where e = 0 and n = "- 4503599627370496"]) simp_all
  have m: "rnd (- 180) = - 180"
    by (rule rnd_eqI [where e = 7 and n = "- 6333186975989760"]) simp_all
  have "- M_PI_b64 / M_PI_b64 = - 1" using M_PI_b64_pos by simp
  then show ?thesis
    unfolding getDeg_b64_getRad getRad_fromDeg_b64_1e19 by (simp add: one m)
qed

lemma getRad_fromRad_b64_170_reassociated:
  "getRad (fromRad_b64 (double_div (double_mul 170 M_PI_b64) 180))
    = 417576533973901 / 140737488355328"
proof -
  have x: "rnd (170 * M_PI_b64) = 2348868003603193 / 4398046511104"
    unfolding M_PI_b64_def
    by (rule rnd_eqI [where e = 9 and n = 4697736007206386]) simp_all
  have y: "rnd (2348868003603193 / 4398046511104 / 180) = 417576533973901 / 140737488355328"
    by (rule rnd_eqI [where e = 1 and n = 6681224543582416]) simp_all
  have "getRad (fromRad_b64 (417576533973901 / 140737488355328))
      = 417576533973901 / 140737488355328"
    by (rule getRad_fromRad_b64_canonical) (simp_all add: M_PI_b64_def)
  then show ?thesis unfolding double_div_def double_mul_def x y .
qed



lemma getRad_fromRad_b64_three_M_PI: "getRad (fromRad_b64 (3 * M_PI_b64)) = - M_PI_b64"
proof -
  have gt: "M_PI_b64 < 3 * M_PI_b64" using M_PI_b64_pos by simp
  have a: "rnd (3 * M_PI_b64 - M_PI_b64) = 2 * M_PI_b64"
    using rnd_2_M_PI_b64 by simp
  have q: "rnd (2 * M_PI_b64 / (2 * M_PI_b64)) = 1"
  proof -
    have "2 * M_PI_b64 / (2 * M_PI_b64) = 1" using M_PI_b64_pos by simp
    moreover have "rnd 1 = 1"
      by (rule rnd_eqI [where e = 0 and n = 4503599627370496]) simp_all
    ultimately show ?thesis by simp
  qed
  show ?thesis
    unfolding getRad_fromRad_b64_above [OF gt] a q
    by (simp add: rnd_0 rnd_minus_M_PI_b64)
qed

lemma rnd_three_M_PI_b64: "rnd (3 * M_PI_b64) = 3 * M_PI_b64"
  unfolding M_PI_b64_def
  by (rule rnd_eqI [where e = 3 and n = 5305678314021330]) simp_all

text \<open>
  At \<open>M_PI\<close>, \<open>-M_PI\<close> and \<open>3 * M_PI\<close> no operation rounds, and the doubles stored are
  the values of the first embedding: \<open>M_PI\<close>, \<open>M_PI\<close> and \<open>-M_PI\<close>; constructing again
  from the last gives \<open>M_PI\<close>.
\<close>

lemma getRad_fromRad_b64_M_PI: "getRad (fromRad_b64 M_PI_b64) = M_PI_b64"
  using M_PI_b64_pos by (intro getRad_fromRad_b64_canonical) simp_all

lemma getRad_fromRad_b64_minus_M_PI: "getRad (fromRad_b64 (- M_PI_b64)) = M_PI_b64"
proof -
  have le: "- M_PI_b64 \<le> - M_PI_b64" by simp
  show ?thesis
    unfolding getRad_fromRad_b64_below [OF le]
    by (simp add: rnd_0 rnd_M_PI_b64)
qed

lemma fromRad_b64_three_M_PI_again:
  "getRad (fromRad_b64 (getRad (fromRad_b64 (3 * M_PI_b64)))) = M_PI_b64"
  by (simp only: getRad_fromRad_b64_three_M_PI getRad_fromRad_b64_minus_M_PI)

lemma getRad_fromRad_b64_4:
  "getRad (fromRad_b64 4) = - (321329765582243 / 140737488355328)"
proof -
  have gt: "M_PI_b64 < 4" by (simp add: M_PI_b64_def)
  have a: "rnd (4 - M_PI_b64) = 241620187839069 / 281474976710656"
    unfolding M_PI_b64_def
    by (rule rnd_eqI [where e = "- 1" and n = 7731846010850208]) simp_all
  have q: "rnd (241620187839069 / 281474976710656 / (2 * M_PI_b64))
      = 4922246047408651 / 36028797018963968"
    unfolding M_PI_b64_def
    by (rule rnd_eqI [where e = "- 3" and n = 4922246047408651]) simp_all
  have f: "4922246047408651 / 36028797018963968
      - real_of_int \<lfloor>4922246047408651 / 36028797018963968 :: real\<rfloor>
      = 4922246047408651 / 36028797018963968"
    by simp
  have t: "rnd (2 * M_PI_b64 * (4922246047408651 / 36028797018963968))
      = 7731846010850207 / 9007199254740992"
    unfolding M_PI_b64_def
    by (rule rnd_eqI [where e = "- 1" and n = 7731846010850207]) simp_all
  have c: "rnd (- M_PI_b64 + 7731846010850207 / 9007199254740992)
      = - (321329765582243 / 140737488355328)"
    unfolding M_PI_b64_def
    by (rule rnd_eqI [where e = 1 and n = "- 5141276249315888"]) simp_all
  show ?thesis
    unfolding getRad_fromRad_b64_above [OF gt] a q f t c ..
qed

lemma getRad_fromRad_b64_10:
  "getRad (fromRad_b64 10) = - (5778952871261279 / 2251799813685248)"
proof -
  have gt: "M_PI_b64 < 10" by (simp add: M_PI_b64_def)
  have a: "rnd (10 - M_PI_b64) = 1930470048103005 / 281474976710656"
    unfolding M_PI_b64_def
    by (rule rnd_eqI [where e = 2 and n = 7721880192412020]) simp_all
  have q: "rnd (1930470048103005 / 281474976710656 / (2 * M_PI_b64))
      = 1228975402585769 / 1125899906842624"
    unfolding M_PI_b64_def
    by (rule rnd_eqI [where e = 0 and n = 4915901610343076]) simp_all
  have f: "1228975402585769 / 1125899906842624
      - real_of_int \<lfloor>1228975402585769 / 1125899906842624 :: real\<rfloor>
      = 103075495743145 / 1125899906842624"
    by simp
  have t: "rnd (2 * M_PI_b64 * (103075495743145 / 1125899906842624))
      = 5181139523068645 / 9007199254740992"
    unfolding M_PI_b64_def
    by (rule rnd_eqI [where e = "- 1" and n = 5181139523068645]) simp_all
  have c: "rnd (- M_PI_b64 + 5181139523068645 / 9007199254740992)
      = - (5778952871261279 / 2251799813685248)"
    unfolding M_PI_b64_def
    by (rule rnd_eqI [where e = 1 and n = "- 5778952871261279"]) simp_all
  show ?thesis
    unfolding getRad_fromRad_b64_above [OF gt] a q f t c ..
qed

text \<open>
  No exact congruence modulo \<open>2\<pi>\<close> for all inputs: from \<open>2 \<le> \<pi> < 4\<close> and the value stored
  at \<open>4\<close>, \<open>\<pi>\<close> would be the double \<open>M_PI\<close>, and then the value stored at \<open>10\<close> is off.
\<close>

lemma not_congruent_modulo_two_pi:
  "\<not> (\<forall>r. \<exists>k::int. getRad (fromRad_b64 r) = r - 2 * pi * of_int k)"
proof
  assume all: "\<forall>r. \<exists>k::int. getRad (fromRad_b64 r) = r - 2 * pi * of_int k"
  then obtain k1 :: int where "getRad (fromRad_b64 4) = 4 - 2 * pi * of_int k1" by blast
  then have e1: "pi * of_int k1 = M_PI_b64"
    unfolding getRad_fromRad_b64_4 M_PI_b64_def by simp
  have "k1 = 1"
  proof -
    have "0 < pi * of_int k1" unfolding e1 by (rule M_PI_b64_pos)
    then have "0 < real_of_int k1" using pi_gt_zero by (simp add: zero_less_mult_iff)
    then have pos: "1 \<le> k1" by simp
    have "\<not> 2 \<le> k1"
    proof
      assume "2 \<le> k1"
      then have "2 \<le> real_of_int k1" by simp
      with pi_ge_two have "2 * 2 \<le> pi * real_of_int k1" by (intro mult_mono) simp_all
      with e1 show False by (simp add: M_PI_b64_def)
    qed
    with pos show ?thesis by simp
  qed
  with e1 have pi: "pi = M_PI_b64" by simp
  from all obtain k2 :: int where "getRad (fromRad_b64 10) = 10 - 2 * pi * of_int k2" by blast
  then have "real_of_int k2 = (10 + 5778952871261279 / 2251799813685248) / (2 * M_PI_b64)"
    unfolding getRad_fromRad_b64_10 pi using M_PI_b64_pos by (simp add: field_simps)
  moreover have "real_of_int 1 < (10 + 5778952871261279 / 2251799813685248) / (2 * M_PI_b64)"
    "(10 + 5778952871261279 / 2251799813685248) / (2 * M_PI_b64) < real_of_int 2"
    by (simp_all add: M_PI_b64_def)
  ultimately have "real_of_int 1 < real_of_int k2" "real_of_int k2 < real_of_int 2" by simp_all
  then have "1 < k2" "k2 < 2" by (simp_all only: of_int_less_iff)
  then show False by linarith
qed

section \<open>The claims\<close>

text \<open>
  Claim C1 says that every constructed angle stores a value \<open>v\<close> with \<open>-\<pi> < v \<le> \<pi>\<close>, as
  the comment on the field \<open>rad\<close> does. The code stores \<open>-\<pi>\<close> for the input \<open>3\<pi>\<close>:
  \<open>copysign\<close> gives \<open>\<pi>\<close>, the quotient \<open>(3\<pi> - \<pi>) / (2\<pi>)\<close> is \<open>1\<close>, \<open>modf\<close> returns \<open>0\<close>
  and the result is \<open>-\<pi> + 0\<close>. The same value is stored by the product of the angle \<open>\<pi>\<close>
  with the scalar \<open>3\<close>.
\<close>

theorem C1_three_pi_stores_minus_pi:
  "getRad (fromRad (3 * pi)) = - pi \<and>
   getRad (operator_times_Angle_double (fromRad pi) 3) = - pi \<and>
   \<not> - pi < getRad (fromRad (3 * pi))"
proof -
  have "getRad (fromRad pi) = pi" by (simp add: getRad_fromRad_canonical)
  then have "operator_times_Angle_double (fromRad pi) 3 = fromRad (3 * pi)"
    by (simp add: operator_times_Angle_double_def mult.commute)
  then show ?thesis by (simp add: getRad_fromRad_three_pi)
qed

text \<open>
  Claim C2, as amended: for every \<open>r\<close>, \<open>fromRad(r).getRad()\<close> is congruent to \<open>r\<close>
  modulo \<open>2 * M_PI\<close> up to the rounding of the four operations of \<open>canonize\<close>: there is
  an integer \<open>k\<close> with \<open>|fromRad(r).getRad() - (r - 2 * M_PI * k)| \<le> (|r| + 4) / 2 ^ 51\<close>.
\<close>

theorem C2_congruent_up_to_rounding:
  "\<exists>k::int. \<bar>getRad (fromRad_b64 r) - (r - 2 * M_PI_b64 * of_int k)\<bar> \<le> (\<bar>r\<bar> + 4) / 2 ^ 51"
  by (rule getRad_fromRad_b64_congruent_approx)

text \<open>
  Claim C2 as it is written, an exact congruence, fails. Modulo \<open>2\<pi>\<close>, with \<open>\<pi>\<close> the real
  number: \<open>fromRad(4)\<close> stores the double \<open>4 - 2 * M_PI\<close>, so the claim at \<open>r = 4\<close> forces
  \<open>\<pi> = M_PI\<close>; \<open>fromRad(10)\<close> stores \<open>10 - 4 * M_PI + 2 ^ - 51\<close>, which is then not
  congruent to \<open>10\<close>. Modulo \<open>2 * M_PI\<close> it fails at \<open>r = 1e17\<close>: \<open>r - M_PI\<close> rounds to
  \<open>r\<close>, the quotient by \<open>2 * M_PI\<close> rounds to the whole number \<open>15915494309189534\<close>,
  \<open>modf\<close> returns \<open>0\<close> and \<open>-M_PI\<close> is stored, which lies strictly between
  \<open>r - 2 * M_PI * 15915494309189535\<close> and \<open>r - 2 * M_PI * 15915494309189534\<close>.
\<close>

theorem C2_exact_congruence_counterexample:
  "\<not> (\<forall>r. \<exists>k::int. getRad (fromRad_b64 r) = r - 2 * pi * of_int k) \<and>
   getRad (fromRad_b64 100000000000000000) = - M_PI_b64 \<and>
   \<not> (\<exists>k::int. getRad (fromRad_b64 100000000000000000)
        = 100000000000000000 - 2 * M_PI_b64 * of_int k)"
proof -
  have "getRad (fromRad_b64 100000000000000000) \<noteq> 100000000000000000 - 2 * M_PI_b64 * of_int k"
    for k :: int
  proof
    assume "getRad (fromRad_b64 100000000000000000) = 100000000000000000 - 2 * M_PI_b64 * of_int k"
    then have "real_of_int k = (100000000000000000 + M_PI_b64) / (2 * M_PI_b64)"
      using M_PI_b64_pos by (simp add: getRad_fromRad_b64_1e17 field_simps)
    moreover have "real_of_int 15915494309189534 < (100000000000000000 + M_PI_b64) / (2 * M_PI_b64)"
      "(100000000000000000 + M_PI_b64) / (2 * M_PI_b64) < real_of_int 15915494309189535"
      by (simp_all add: M_PI_b64_def)
    ultimately have "real_of_int 15915494309189534 < real_of_int k"
      "real_of_int k < real_of_int 15915494309189535" by simp_all
    then have "15915494309189534 < k" "k < 15915494309189535"
      by (simp_all only: of_int_less_iff)
    then show False by linarith
  qed
  then show ?thesis
    using not_congruent_modulo_two_pi by (simp add: getRad_fromRad_b64_1e17)
qed

text \<open>
  Claim C3: at the boundaries of the interval, \<open>fromRad(\<pi>).getRad()\<close> is \<open>\<pi>\<close>, and
  \<open>fromRad(-\<pi>).getRad()\<close> is \<open>\<pi>\<close> as well, since \<open>-\<pi>\<close> is not canonical.
\<close>

theorem C3_boundaries:
  "getRad (fromRad pi) = pi \<and> getRad (fromRad (- pi)) = pi"
  by (simp add: getRad_fromRad_canonical getRad_fromRad_minus_pi)

text \<open>
  Claim C4, as amended: \<open>a.isApprox(b, p)\<close> is true if and only if the binary64 difference
  \<open>b.getRad() - a.getRad()\<close>, rounded as the subtraction of the code rounds it, is less
  than \<open>p\<close> in absolute value; \<open>p\<close> is compared with that difference of radian values as
  it is, and when it is left out it is the double \<open>1e-5\<close>. Whenever the call is true for
  a double \<open>p\<close>, the exact difference is less than \<open>p\<close> in absolute value as well.
\<close>

theorem C4_isApprox_rounded_difference:
  "isApprox_b64 a b p = (\<bar>double_sub (getRad b) (getRad a)\<bar> < p) \<and>
   isApprox_default_b64 a b = (\<bar>double_sub (getRad b) (getRad a)\<bar> < rnd (1 / 100000)) \<and>
   (rnd p = p \<longrightarrow> isApprox_b64 a b p \<longrightarrow> \<bar>getRad b - getRad a\<bar> < p)"
  using isApprox_b64_sound [of p a b]
  by (simp add: isApprox_b64_def isApprox_default_b64_def isApprox_default_prec_b64_def
      fabs_def getRad_def)

theorem C4_isApprox_rounded_difference_witness:
  "rnd 2 = 2 \<and> isApprox_b64 (fromRad_b64 1) (fromRad_b64 2) 2 \<and>
   \<bar>getRad (fromRad_b64 2) - getRad (fromRad_b64 1)\<bar> < 2"
proof -
  have two: "rnd 2 = 2"
    by (rule rnd_eqI [where e = 1 and n = 4503599627370496]) simp_all
  have one: "rnd 1 = 1"
    by (rule rnd_eqI [where e = 0 and n = 4503599627370496]) simp_all
  have g: "getRad (fromRad_b64 1) = 1" "getRad (fromRad_b64 2) = 2"
    by (rule getRad_fromRad_b64_canonical; simp add: M_PI_b64_def)+
  have ap: "isApprox_b64 (fromRad_b64 1) (fromRad_b64 2) 2"
    using g by (simp add: isApprox_b64_def fabs_def double_sub_def getRad_def one)
  from C4_isApprox_rounded_difference [of "fromRad_b64 1" "fromRad_b64 2" 2] two ap
  show ?thesis by simp
qed

text \<open>
  Claim C4 as it is written, with the exact difference, fails for the angles \<open>3\<close> and
  \<open>2 ^ - 60\<close> and the precision \<open>3\<close>: the exact difference \<open>3 - 2 ^ - 60\<close> is less than
  \<open>3\<close>, the subtraction of the code rounds it to \<open>3\<close>, and the call returns false.
\<close>

theorem C4_exact_difference_counterexample:
  "\<not> isApprox_b64 (fromRad_b64 3) (fromRad_b64 (1 / 2 ^ 60)) 3 \<and>
   \<bar>getRad (fromRad_b64 (1 / 2 ^ 60)) - getRad (fromRad_b64 3)\<bar> < 3"
proof -
  have g: "getRad (fromRad_b64 3) = 3"
    "getRad (fromRad_b64 (1 / 2 ^ 60)) = 1 / 2 ^ 60"
    by (rule getRad_fromRad_b64_canonical; simp add: M_PI_b64_def)+
  have d: "rnd (1 / 2 ^ 60 - 3) = - 3"
    by (rule rnd_eqI [where e = 1 and n = "- 6755399441055744"]) simp_all
  from g have r: "rad (fromRad_b64 3) = 3" "rad (fromRad_b64 (1 / 2 ^ 60)) = 1 / 2 ^ 60"
    by (simp_all only: getRad_def)
  have "isApprox_b64 (fromRad_b64 3) (fromRad_b64 (1 / 2 ^ 60)) 3 = (\<bar>- 3 :: real\<bar> < 3)"
    unfolding isApprox_b64_def fabs_def double_sub_def r d ..
  then have "\<not> isApprox_b64 (fromRad_b64 3) (fromRad_b64 (1 / 2 ^ 60)) 3" by simp
  then show ?thesis unfolding g by simp
qed

text \<open>
  Claim C5 says that constructing from a stored value gives the same stored value again.
  The code does not at the input \<open>3\<pi>\<close>: the stored value is \<open>-\<pi>\<close>, and constructing
  from \<open>-\<pi>\<close> stores \<open>\<pi>\<close>.
\<close>

theorem C5_three_pi_not_idempotent:
  "getRad (fromRad (3 * pi)) = - pi \<and>
   getRad (fromRad (getRad (fromRad (3 * pi)))) = pi \<and>
   getRad (fromRad (getRad (fromRad (3 * pi)))) \<noteq> getRad (fromRad (3 * pi))"
  using pi_gt_zero by (simp add: getRad_fromRad_three_pi getRad_fromRad_minus_pi)



text \<open>
  Claim C7, as amended: \<open>fromDeg(d)\<close> is the angle \<open>fromRad\<close> of the double
  \<open>(d / 180.0) * M_PI\<close>, \<open>getDeg()\<close> is the double \<open>(getRad() / M_PI) * 180\<close>, each operation
  rounded, and \<open>fromDeg(d).getDeg()\<close> is \<open>d\<close> modulo \<open>360\<close> up to rounding: there is an
  integer \<open>k\<close> with \<open>|fromDeg(d).getDeg() - (d - 360 * k)| \<le> (|d| + 360) / 2 ^ 50\<close>.
\<close>

theorem C7_degrees_binary64:
  "fromDeg_b64 d = fromRad_b64 (double_mul (double_div d 180) M_PI_b64) \<and>
   getDeg_b64 a = double_mul (double_div (getRad a) M_PI_b64) 180 \<and>
   (\<exists>k::int. \<bar>getDeg_b64 (fromDeg_b64 d) - (d - 360 * of_int k)\<bar> \<le> (\<bar>d\<bar> + 360) / 2 ^ 50)"
  using getDeg_b64_fromDeg_b64_approx [of d]
  by (simp add: fromDeg_b64_def fromRad_b64_def getDeg_b64_def getRad_def)

text \<open>
  Claim C7 as it is written fails twice. \<open>fromDeg(1e19).getDeg()\<close> is \<open>-180\<close>, while
  \<open>1e19\<close> is \<open>-80\<close> modulo \<open>360\<close>: a hundred degrees apart. And \<open>fromDeg(170)\<close> is not
  \<open>fromRad(170 * M_PI / 180)\<close>: the two doubles differ in the last place.
\<close>

theorem C7_degrees_counterexample:
  "getDeg_b64 (fromDeg_b64 10000000000000000000) = - 180 \<and>
   (10000000000000000000 :: real) - 360 * 27777777777777778 = - 80 \<and>
   getRad (fromDeg_b64 170) \<noteq> getRad (fromRad_b64 (double_div (double_mul 170 M_PI_b64) 180))"
  unfolding getDeg_b64_fromDeg_b64_1e19 getRad_fromDeg_b64_170 getRad_fromRad_b64_170_reassociated
  by simp

text \<open>
  Claim C8: the product of an angle and a scalar is the same angle whichever side the
  scalar is written on.
\<close>

theorem C8_scalar_multiplication_commutes:
  "operator_times_Angle_double a k = operator_times_double_Angle k a"
  by (simp add: operator_times_Angle_double_def operator_times_double_Angle_def mult.commute)

text \<open>
  Claim C9: approximate equality is symmetric, \<open>a.isApprox(b, p)\<close> is \<open>b.isApprox(a, p)\<close>.
\<close>

theorem C9_isApprox_symmetric:
  "isApprox a b p = isApprox b a p"
  by (simp add: isApprox_def fabs_def abs_minus_commute)

text \<open>
  Claim C10: with a precision \<open>p \<le> 0\<close>, \<open>a.isApprox(b, p)\<close> is false for all angles;
  in particular \<open>a.isApprox(a, 0)\<close> is false.
\<close>

theorem C10_isApprox_nonpositive_precision:
  "p \<le> 0 \<Longrightarrow> \<not> isApprox a b p \<and> \<not> isApprox a a 0"
  by (simp add: isApprox_def fabs_def)

theorem C10_isApprox_nonpositive_precision_witness:
  "(- 1 :: real) \<le> 0 \<and> \<not> isApprox (fromRad 1) (fromRad 2) (- 1) \<and>
   \<not> isApprox (fromRad 1) (fromRad 1) 0"
proof -
  have h: "(- 1 :: real) \<le> 0" by simp
  from C10_isApprox_nonpositive_precision [OF h, of "fromRad 1" "fromRad 2"] h
  show ?thesis by simp
qed

end
